theory Spec2Isabelle
  imports Main "HOL-Library.Code_Target_Numeral"
begin

section \<open>Python values used by \<open>tools/make-standard-json.py\<close>\<close>

text \<open>
  A Python \<open>dict\<close> keeps its keys distinct and in insertion order. It is an association
  list here: the order is what the loops over \<open>.items()\<close> and \<open>.keys()\<close> see, and what
  the final document prints. \<open>d[k] = v\<close> rebinds \<open>k\<close> in place when it is a key and
  appends the binding otherwise.
\<close>

type_synonym ('k, 'v) pydict = "('k \<times> 'v) list"

definition keys :: "('k, 'v) pydict \<Rightarrow> 'k list" where
  "keys d = map fst d"

definition contains :: "('k, 'v) pydict \<Rightarrow> 'k \<Rightarrow> bool" where
  "contains d k = (k \<in> set (keys d))"

definition getitem :: "('k, 'v) pydict \<Rightarrow> 'k \<Rightarrow> 'v option" where
  "getitem d k = map_of d k"

fun setitem :: "('k, 'v) pydict \<Rightarrow> 'k \<Rightarrow> 'v \<Rightarrow> ('k, 'v) pydict" where
  "setitem [] k v = [(k, v)]"
| "setitem ((k', v') # d) k v = (if k' = k then (k, v) # d else (k', v') # setitem d k v)"

text \<open>
  A Python \<open>str\<close> is a list of characters. The alias expander only tests prefixes,
  slices and concatenates, so it is stated for any character type.
  \<open>startswith s p\<close> is \<open>s.startswith(p)\<close>; \<open>s[len(p):]\<close> is \<open>drop (length p) s\<close>.
\<close>

fun startswith :: "'c list \<Rightarrow> 'c list \<Rightarrow> bool" where
  "startswith s [] = True"
| "startswith [] (p # ps) = False"
| "startswith (c # s) (p # ps) = (c = p \<and> startswith s ps)"

section \<open>The alias expander\<close>

text \<open>
  \<^verbatim>\<open>
  def expand_alias_sources(sources, remaps):
      expanded = dict(sources)
      for alias, target in remaps:
          for path, content in sources.items():
              if path.startswith(target):
                  candidate = alias + path[len(target) :]
                  if candidate not in expanded:
                      expanded[candidate] = content
      return expanded
  \<close>
  \<open>alias_item\<close> is the body of the inner loop, \<open>expand_rule\<close> the inner loop over the
  items of \<open>sources\<close>, \<open>expand_rules\<close> the outer loop over the rules. The inner loop
  always runs over the items of the original \<open>sources\<close>, never over \<open>expanded\<close>.
\<close>

definition alias_item ::
  "'c list \<Rightarrow> 'c list \<Rightarrow> ('c list, 'v) pydict \<Rightarrow> 'c list \<times> 'v \<Rightarrow> ('c list, 'v) pydict" where
  "alias_item alias target expanded item =
     (case item of (path, content) \<Rightarrow>
        if startswith path target then
          (let candidate = alias @ drop (length target) path
           in if \<not> contains expanded candidate then setitem expanded candidate content
              else expanded)
        else expanded)"

fun expand_rule ::
  "'c list \<Rightarrow> 'c list \<Rightarrow> ('c list \<times> 'v) list \<Rightarrow> ('c list, 'v) pydict \<Rightarrow> ('c list, 'v) pydict" where
  "expand_rule alias target [] expanded = expanded"
| "expand_rule alias target (item # items) expanded =
     expand_rule alias target items (alias_item alias target expanded item)"

fun expand_rules ::
  "('c list, 'v) pydict \<Rightarrow> ('c list \<times> 'c list) list \<Rightarrow> ('c list, 'v) pydict \<Rightarrow> ('c list, 'v) pydict" where
  "expand_rules sources [] expanded = expanded"
| "expand_rules sources ((alias, target) # remaps) expanded =
     expand_rules sources remaps (expand_rule alias target sources expanded)"

definition expand_alias_sources ::
  "('c list, 'v) pydict \<Rightarrow> ('c list \<times> 'c list) list \<Rightarrow> ('c list, 'v) pydict" where
  "expand_alias_sources sources remaps = expand_rules sources remaps sources"

text \<open>
  The ways a key can be read as an alias of an original path: the pairs of a rule
  \<open>(alias, target)\<close> of the list and a key \<open>path\<close> of the source map with
  \<open>path\<close> starting with \<open>target\<close> and \<open>key = alias + path[len(target):]\<close>.
\<close>

definition alias_derivations ::
  "('c list, 'v) pydict \<Rightarrow> ('c list \<times> 'c list) list \<Rightarrow> 'c list \<Rightarrow> (('c list \<times> 'c list) \<times> 'c list) list" where
  "alias_derivations sources remaps key =
     [((alias, target), path). (alias, target) \<leftarrow> remaps, path \<leftarrow> keys sources,
        startswith path target \<and> key = alias @ drop (length target) path]"

section \<open>Text\<close>

text \<open>
  The parser and the encoder look at single characters, so there a \<open>str\<close> is the list of
  its code points. \<open>str\<close> turns an ASCII literal into such a list.
\<close>

type_synonym pystr = "nat list"

definition str :: "string \<Rightarrow> pystr" where
  "str s = map of_char s"

text \<open>
  \<open>is_space\<close> is \<open>str.isspace\<close> on one character (also what \<open>\s\<close> matches in a \<open>str\<close>
  pattern and what \<open>strip()\<close> removes); \<open>is_linebreak\<close> is the set of line boundaries of
  \<open>str.splitlines\<close>.
\<close>

definition is_space :: "nat \<Rightarrow> bool" where
  "is_space c = ((9 \<le> c \<and> c \<le> 13) \<or> (28 \<le> c \<and> c \<le> 32) \<or> c = 133 \<or> c = 160 \<or> c = 5760
     \<or> (8192 \<le> c \<and> c \<le> 8202) \<or> c = 8232 \<or> c = 8233 \<or> c = 8239 \<or> c = 8287 \<or> c = 12288)"

definition is_linebreak :: "nat \<Rightarrow> bool" where
  "is_linebreak c = ((10 \<le> c \<and> c \<le> 13) \<or> (28 \<le> c \<and> c \<le> 30) \<or> c = 133
     \<or> c = 8232 \<or> c = 8233)"

definition lstrip :: "pystr \<Rightarrow> pystr" where
  "lstrip s = dropWhile is_space s"

definition rstrip :: "pystr \<Rightarrow> pystr" where
  "rstrip s = rev (dropWhile is_space (rev s))"

definition strip :: "pystr \<Rightarrow> pystr" where
  "strip s = rstrip (lstrip s)"

definition endswith :: "'c list \<Rightarrow> 'c list \<Rightarrow> bool" where
  "endswith s p = startswith (rev s) (rev p)"

text \<open>\<open>join sep xs\<close> is \<open>sep.join(xs)\<close>.\<close>

fun join :: "'c list \<Rightarrow> 'c list list \<Rightarrow> 'c list" where
  "join sep [] = []"
| "join sep [x] = x"
| "join sep (x # y # ys) = x @ sep @ join sep (y # ys)"

text \<open>
  \<open>splitlines\<close> is \<open>str.splitlines()\<close>: the lines without their line breaks, \<open>\r\n\<close> one
  break, no empty last line after a final break. \<open>lines_from after_cr s\<close> reads \<open>s\<close> from
  the start of a line; \<open>after_cr\<close> says that the character before was a carriage return,
  whose line feed is then skipped. \<open>cons_first c ls\<close> puts \<open>c\<close> in front of the first line.
\<close>

definition cons_first :: "'c \<Rightarrow> 'c list list \<Rightarrow> 'c list list" where
  "cons_first c ls = (case ls of [] \<Rightarrow> [[c]] | l # rest \<Rightarrow> (c # l) # rest)"

fun lines_from :: "bool \<Rightarrow> pystr \<Rightarrow> pystr list" where
  "lines_from after_cr [] = []"
| "lines_from after_cr (c # cs) =
     (if c = 10 \<and> after_cr then lines_from False cs
      else if is_linebreak c then [] # lines_from (c = 13) cs
      else cons_first c (lines_from False cs))"

definition splitlines :: "pystr \<Rightarrow> pystr list" where
  "splitlines s = lines_from False s"

text \<open>\<open>split_once sep s\<close> is \<open>s.split(sep, 1)\<close> for a separator of one character.\<close>

definition split_once :: "nat \<Rightarrow> pystr \<Rightarrow> pystr list" where
  "split_once sep s =
     (case dropWhile (\<lambda>c. c \<noteq> sep) s of
        [] \<Rightarrow> [s]
      | _ # rest \<Rightarrow> [takeWhile (\<lambda>c. c \<noteq> sep) s, rest])"

section \<open>Errors and files\<close>

text \<open>
  An uncaught exception ends the run; a function that can raise returns \<open>Inl\<close> of the
  exception. \<open>FileNotFoundError\<close> and \<open>KeyError\<close> carry their message.
\<close>

datatype error =
    FileNotFoundError pystr
  | KeyError pystr
  | TypeError
  | AttributeError
  | ValueError
  | SyntaxError
  | JSONDecodeError

text \<open>
  The files under \<open>ROOT\<close>: a path, spelled relative to \<open>ROOT\<close>, is mapped to the text of the
  file there. \<open>exists\<close> is \<open>(ROOT / path).exists()\<close>, \<open>read_text\<close> is
  \<open>(ROOT / path).read_text()\<close>; of the message of the error it raises for a missing file
  only the wording and the path are kept.
\<close>

type_synonym files = "pystr \<rightharpoonup> pystr"

definition ARTIFACT :: pystr where
  "ARTIFACT = str ''out/BurnMintTokenPool.sol/BurnMintTokenPool.json''"

definition FOUNDRY_TOML :: pystr where
  "FOUNDRY_TOML = str ''foundry.toml''"


definition exists :: "files \<Rightarrow> pystr \<Rightarrow> bool" where
  "exists fs path = (fs path \<noteq> None)"

definition read_text :: "files \<Rightarrow> pystr \<Rightarrow> error + pystr" where
  "read_text fs path =
     (case fs path of
        None \<Rightarrow> Inl (FileNotFoundError (str ''[Errno 2] No such file or directory: '' @ path))
      | Some text \<Rightarrow> Inr text)"

section \<open>JSON values\<close>

text \<open>
  What \<open>json.loads\<close> returns: \<open>None\<close>, a \<open>bool\<close>, an \<open>int\<close>, a \<open>float\<close>, a \<open>str\<close>, a
  \<open>list\<close> or a \<open>dict\<close> with \<open>str\<close> keys. A float is identified by the text \<open>json.dumps\<close>
  prints for it.
\<close>

datatype json =
    JNull
  | JBool bool
  | JInt int
  | JFloat pystr
  | JString pystr
  | JArray "json list"
  | JObject "(pystr \<times> json) list"

text \<open>\<open>subscript v k\<close> is \<open>v[k]\<close> for a \<open>str\<close> key \<open>k\<close>: only a \<open>dict\<close> has such items.\<close>

definition subscript :: "json \<Rightarrow> pystr \<Rightarrow> error + json" where
  "subscript v k =
     (case v of
        JObject d \<Rightarrow> (case getitem d k of None \<Rightarrow> Inl (KeyError k) | Some x \<Rightarrow> Inr x)
      | _ \<Rightarrow> Inl TypeError)"


section \<open>The JSON encoder\<close>

text \<open>
  \<open>json_dumps ensure_ascii indent v\<close> is \<open>json.dumps(v, ensure_ascii=..., indent=...)\<close>
  with the other arguments at their defaults, \<open>indent\<close> being \<open>None\<close> or a number of
  spaces. \<open>escape_char\<close> is the replacement of one character inside a string: the short
  escapes, \<open>\u00XX\<close> for the other control characters and, when \<open>ensure_ascii\<close> is set,
  \<open>\uXXXX\<close> (a surrogate pair above \<open>0xFFFF\<close>) for every character outside \<open>' '..'~'\<close>.
\<close>

definition hex_digit :: "nat \<Rightarrow> nat" where
  "hex_digit d = (if d < 10 then 48 + d else 87 + d)"

definition u_escape :: "nat \<Rightarrow> pystr" where
  "u_escape n = [92, 117, hex_digit (n div 4096 mod 16), hex_digit (n div 256 mod 16),
     hex_digit (n div 16 mod 16), hex_digit (n mod 16)]"

definition escape_char :: "bool \<Rightarrow> nat \<Rightarrow> pystr" where
  "escape_char ensure_ascii c =
     (if c = 34 then [92, 34]
      else if c = 92 then [92, 92]
      else if c = 10 then [92, 110]
      else if c = 13 then [92, 114]
      else if c = 9 then [92, 116]
      else if c = 12 then [92, 102]
      else if c = 8 then [92, 98]
      else if c < 32 then u_escape c
      else if ensure_ascii \<and> 126 < c then
        (if c < 65536 then u_escape c
         else u_escape (55296 + ((c - 65536) div 1024) mod 1024)
            @ u_escape (56320 + (c - 65536) mod 1024))
      else [c])"

definition encode_basestring :: "bool \<Rightarrow> pystr \<Rightarrow> pystr" where
  "encode_basestring ensure_ascii s = [34] @ concat (map (escape_char ensure_ascii) s) @ [34]"

fun digits :: "nat \<Rightarrow> pystr" where
  "digits n = (if n < 10 then [48 + n] else digits (n div 10) @ [48 + n mod 10])"

declare digits.simps [simp del]

definition int_repr :: "int \<Rightarrow> pystr" where
  "int_repr i = (if i < 0 then 45 # digits (nat (- i)) else digits (nat i))"

definition newline_indent :: "nat option \<Rightarrow> nat \<Rightarrow> pystr" where
  "newline_indent indent level =
     (case indent of None \<Rightarrow> [] | Some n \<Rightarrow> 10 # replicate (n * level) 32)"

definition item_separator :: "nat option \<Rightarrow> nat \<Rightarrow> pystr" where
  "item_separator indent level =
     (case indent of None \<Rightarrow> [44, 32] | Some n \<Rightarrow> 44 # newline_indent indent level)"

fun encode :: "bool \<Rightarrow> nat option \<Rightarrow> nat \<Rightarrow> json \<Rightarrow> pystr"
  and encode_list :: "bool \<Rightarrow> nat option \<Rightarrow> nat \<Rightarrow> json list \<Rightarrow> pystr list"
  and encode_items :: "bool \<Rightarrow> nat option \<Rightarrow> nat \<Rightarrow> (pystr \<times> json) list \<Rightarrow> pystr list" where
  "encode a ind lvl JNull = str ''null''"
| "encode a ind lvl (JBool b) = (if b then str ''true'' else str ''false'')"
| "encode a ind lvl (JInt i) = int_repr i"
| "encode a ind lvl (JFloat r) = r"
| "encode a ind lvl (JString s) = encode_basestring a s"
| "encode a ind lvl (JArray xs) =
     (if xs = [] then str ''[]''
      else [91] @ newline_indent ind (Suc lvl)
         @ join (item_separator ind (Suc lvl)) (encode_list a ind (Suc lvl) xs)
         @ newline_indent ind lvl @ [93])"
| "encode a ind lvl (JObject kvs) =
     (if kvs = [] then str ''{}''
      else [123] @ newline_indent ind (Suc lvl)
         @ join (item_separator ind (Suc lvl)) (encode_items a ind (Suc lvl) kvs)
         @ newline_indent ind lvl @ [125])"
| "encode_list a ind lvl [] = []"
| "encode_list a ind lvl (x # xs) = encode a ind lvl x # encode_list a ind lvl xs"
| "encode_items a ind lvl [] = []"
| "encode_items a ind lvl ((k, v) # kvs) =
     (encode_basestring a k @ [58, 32] @ encode a ind lvl v) # encode_items a ind lvl kvs"


section \<open>The artifact loader\<close>

text \<open>
  \<^verbatim>\<open>
  def load_artifact() -> dict:
      data = json.loads(ARTIFACT.read_text())
      metadata = data["metadata"]
      if isinstance(metadata, str):
          metadata = json.loads(metadata)
      return metadata
  \<close>
  The decoder \<open>json.loads\<close> is the parameter \<open>loads\<close>: a function from a text to a JSON
  value or an error.
\<close>

definition load_artifact :: "(pystr \<Rightarrow> error + json) \<Rightarrow> files \<Rightarrow> error + json" where
  "load_artifact loads fs =
     (case read_text fs ARTIFACT of Inl e \<Rightarrow> Inl e | Inr text \<Rightarrow>
      case loads text of Inl e \<Rightarrow> Inl e | Inr data \<Rightarrow>
      case subscript data (str ''metadata'') of Inl e \<Rightarrow> Inl e | Inr metadata \<Rightarrow>
      (case metadata of JString s \<Rightarrow> loads s | _ \<Rightarrow> Inr metadata))"

section \<open>The source collector\<close>



section \<open>The remapping parser\<close>

text \<open>
  \<^verbatim>\<open>
  def parse_remappings() -> list[tuple[str, str]]:
      text = FOUNDRY_TOML.read_text()
      match = re.search(r"remappings\s*=\s*\[(.*?)\]", text, re.S)
      if not match:
          return []
      raw_block = match.group(1)
      entries: list[str] = []
      for line in raw_block.splitlines():
          line = line.split("#", 1)[0].strip()
          if not line:
              continue
          if line.endswith(","):
              line = line[:-1]
          entries.append(line)
      if not entries:
          return []
      literal = "[" + ",".join(entries) + "]"
      remappings = ast.literal_eval(literal)
      result: list[tuple[str, str]] = []
      for item in remappings:
          alias, target = item.split("=", 1)
          result.append((alias, target))
      return result
  \<close>
  \<open>match_here s\<close> matches the pattern at the start of \<open>s\<close> and returns group 1: the word,
  blanks, \<open>=\<close>, blanks, \<open>[\<close>, and the shortest text up to a \<open>]\<close>. \<open>search_block\<close> is
  \<open>re.search\<close>: the match at the leftmost position.
\<close>

definition match_here :: "pystr \<Rightarrow> pystr option" where
  "match_here s =
     (if startswith s (str ''remappings'') then
        (case dropWhile is_space (drop 10 s) of
           [] \<Rightarrow> None
         | c # s1 \<Rightarrow>
             if c = 61 then
               (case dropWhile is_space s1 of
                  [] \<Rightarrow> None
                | d # s2 \<Rightarrow>
                    if d = 91 \<and> 93 \<in> set s2 then Some (takeWhile (\<lambda>x. x \<noteq> 93) s2) else None)
             else None)
      else None)"

fun search_block :: "pystr \<Rightarrow> pystr option" where
  "search_block [] = None"
| "search_block (c # cs) =
     (case match_here (c # cs) of Some block \<Rightarrow> Some block | None \<Rightarrow> search_block cs)"

text \<open>
  \<open>clean_line\<close> is the first statement of the loop over the lines; \<open>clean_lines\<close> is the
  loop, with the list \<open>entries\<close> built so far.
\<close>

definition clean_line :: "pystr \<Rightarrow> pystr" where
  "clean_line line = strip (hd (split_once 35 line))"

fun clean_lines :: "pystr list \<Rightarrow> pystr list \<Rightarrow> pystr list" where
  "clean_lines [] entries = entries"
| "clean_lines (line # lines) entries =
     (let line = clean_line line
      in if line = [] then clean_lines lines entries
         else clean_lines lines
                (entries @ [if endswith line [44] then butlast line else line]))"

text \<open>
  \<open>ast.literal_eval\<close> is the parameter \<open>literal_eval\<close>. Its argument is a text in square
  brackets, so it returns a sequence of values or raises; of a value the loop only uses
  whether it is a \<open>str\<close> (\<open>bytes\<close> has a \<open>split\<close> that rejects a \<open>str\<close> separator, any
  other value has no \<open>split\<close>).
\<close>

datatype pylit = LStr pystr | LBytes | LOther

fun remapping_items :: "pylit list \<Rightarrow> (pystr \<times> pystr) list \<Rightarrow> error + (pystr \<times> pystr) list" where
  "remapping_items [] result = Inr result"
| "remapping_items (item # items) result =
     (case item of
        LStr s \<Rightarrow>
          (case split_once 61 s of
             [alias, target] \<Rightarrow> remapping_items items (result @ [(alias, target)])
           | _ \<Rightarrow> Inl ValueError)
      | LBytes \<Rightarrow> Inl TypeError
      | LOther \<Rightarrow> Inl AttributeError)"

definition parse_block ::
  "(pystr \<Rightarrow> error + pylit list) \<Rightarrow> pystr \<Rightarrow> error + (pystr \<times> pystr) list" where
  "parse_block literal_eval raw_block =
     (let entries = clean_lines (splitlines raw_block) []
      in if entries = [] then Inr []
         else case literal_eval ([91] @ join [44] entries @ [93]) of
                Inl e \<Rightarrow> Inl e
              | Inr remappings \<Rightarrow> remapping_items remappings [])"

definition parse_remappings ::
  "(pystr \<Rightarrow> error + pylit list) \<Rightarrow> files \<Rightarrow> error + (pystr \<times> pystr) list" where
  "parse_remappings literal_eval fs =
     (case read_text fs FOUNDRY_TOML of Inl e \<Rightarrow> Inl e | Inr text \<Rightarrow>
      (case search_block text of
         None \<Rightarrow> Inr []
       | Some raw_block \<Rightarrow> parse_block literal_eval raw_block))"

section \<open>The settings sanitizer\<close>


section \<open>The program\<close>





section \<open>The settings sanitizer on objects\<close>













section \<open>Blocks without comments and without the trailing comma\<close>

text \<open>
  The block a configuration would hold had its comments been deleted:
  \<open>without_comments False block\<close> drops every character from a \<open>#\<close> up to, not including,
  the next line break. A block has a trailing comma when its last character that is not
  blank is a comma that follows an entry: the character before it is neither blank nor a
  comma. \<open>without_trailing_comma\<close> deletes that comma and keeps the blanks after it.
\<close>

fun without_comments :: "bool \<Rightarrow> pystr \<Rightarrow> pystr" where
  "without_comments in_comment [] = []"
| "without_comments in_comment (c # cs) =
     (if is_linebreak c then c # without_comments False cs
      else if in_comment \<or> c = 35 then without_comments True cs
      else c # without_comments False cs)"

definition has_trailing_comma :: "pystr \<Rightarrow> bool" where
  "has_trailing_comma block =
     (case rev (rstrip block) of
        c # d # _ \<Rightarrow> c = 44 \<and> d \<noteq> 44 \<and> \<not> is_space d
      | _ \<Rightarrow> False)"

definition without_trailing_comma :: "pystr \<Rightarrow> pystr" where
  "without_trailing_comma block =
     butlast (rstrip block) @ drop (length (rstrip block)) block"

text \<open>
  For the proofs: \<open>line_entry\<close> is what one line adds to \<open>entries\<close>, \<open>finish\<close> the same
  from the part of the line before the \<open>#\<close>; \<open>scan t\<close> is the lines of a text that continues
  a line; \<open>view\<close> is what the entries depend on in the lines still to come, the first of
  which may continue a line already begun.
\<close>

definition line_entry :: "pystr \<Rightarrow> pystr list" where
  "line_entry line =
     (let line = clean_line line
      in if line = [] then [] else [if endswith line [44] then butlast line else line])"

definition scan :: "pystr \<Rightarrow> pystr list" where
  "scan t = (case lines_from False t of [] \<Rightarrow> [[]] | l # ls \<Rightarrow> l # ls)"

definition finish :: "pystr \<Rightarrow> pystr list" where
  "finish x = (let y = strip x in if y = [] then [] else [if endswith y [44] then butlast y else y])"

definition view :: "bool \<Rightarrow> pystr list \<Rightarrow> pystr \<times> pystr list" where
  "view at_start ls =
     (if at_start then ([], concat (map line_entry ls))
      else (takeWhile (\<lambda>c. c \<noteq> 35) (case ls of [] \<Rightarrow> [] | l # _ \<Rightarrow> l),
            concat (map line_entry (tl ls))))"

section \<open>Decoders for the examples\<close>

text \<open>
  The theorems below hold for every decoder \<open>loads\<close> and every evaluator \<open>literal_eval\<close>.
  The examples that run the program on a concrete input use these two, which agree with
  \<open>json.loads\<close> and \<open>ast.literal_eval\<close> on the texts they accept.
\<close>

text \<open>
  \<open>str_bs\<close> is \<open>str\<close> for a text with backslashes: each \<open>^\<close> of the literal stands for
  a backslash.
\<close>

definition str_bs :: "string \<Rightarrow> pystr" where
  "str_bs s = map (\<lambda>c. if c = 94 then 92 else c) (str s)"

text \<open>
  \<open>loads_basic\<close> decodes the JSON texts made of objects, arrays, strings (with the
  escapes of the quote, the backslash and the slash only), integers, \<open>true\<close>, \<open>false\<close>
  and \<open>null\<close>, as \<open>json.loads\<close> does. It rejects every other text (floats, other
  escapes, a repeated key), which \<open>json.loads\<close> does not always do. The first argument of
  \<open>basic_value\<close> bounds the depth of the recursion; every call reads at least one
  character.
\<close>

definition json_ws :: "nat \<Rightarrow> bool" where
  "json_ws c = (c = 32 \<or> c = 9 \<or> c = 10 \<or> c = 13)"

fun basic_string :: "pystr \<Rightarrow> (pystr \<times> pystr) option" where
  "basic_string [] = None"
| "basic_string [c] = (if c = 34 then Some ([], []) else None)"
| "basic_string (c # d # cs) =
     (if c = 34 then Some ([], d # cs)
      else if c < 32 then None
      else if c = 92 then
        (if d = 34 \<or> d = 92 \<or> d = 47 then
           (case basic_string cs of None \<Rightarrow> None | Some (x, rest) \<Rightarrow> Some (d # x, rest))
         else None)
      else (case basic_string (d # cs) of None \<Rightarrow> None | Some (x, rest) \<Rightarrow> Some (c # x, rest)))"

definition is_digit :: "nat \<Rightarrow> bool" where
  "is_digit c = (48 \<le> c \<and> c \<le> 57)"

definition nat_of_digits :: "pystr \<Rightarrow> nat" where
  "nat_of_digits ds = foldl (\<lambda>n d. 10 * n + (d - 48)) 0 ds"

definition basic_int :: "pystr \<Rightarrow> (json \<times> pystr) option" where
  "basic_int s =
     (let neg = (s \<noteq> [] \<and> hd s = 45);
          body = (if neg then tl s else s);
          ds = takeWhile is_digit body;
          rest = dropWhile is_digit body
      in if ds = [] \<or> (hd ds = 48 \<and> length ds > 1)
            \<or> (rest \<noteq> [] \<and> (hd rest = 46 \<or> hd rest = 101 \<or> hd rest = 69))
         then None
         else Some (JInt (if neg then - int (nat_of_digits ds) else int (nat_of_digits ds)), rest))"

fun basic_value :: "nat \<Rightarrow> pystr \<Rightarrow> (json \<times> pystr) option"
  and basic_elements :: "nat \<Rightarrow> pystr \<Rightarrow> (json list \<times> pystr) option"
  and basic_members :: "nat \<Rightarrow> pystr \<Rightarrow> ((pystr, json) pydict \<times> pystr) option" where
  "basic_value 0 s = None"
| "basic_value (Suc n) s =
     (case dropWhile json_ws s of
        [] \<Rightarrow> None
      | c # cs \<Rightarrow>
          if c = 34 then
            (case basic_string cs of None \<Rightarrow> None | Some (x, rest) \<Rightarrow> Some (JString x, rest))
          else if c = 91 then
            (case dropWhile json_ws cs of
               [] \<Rightarrow> None
             | d # rest \<Rightarrow>
                 if d = 93 then Some (JArray [], rest)
                 else (case basic_elements n cs of
                         None \<Rightarrow> None
                       | Some (xs, rest') \<Rightarrow> Some (JArray xs, rest')))
          else if c = 123 then
            (case dropWhile json_ws cs of
               [] \<Rightarrow> None
             | d # rest \<Rightarrow>
                 if d = 125 then Some (JObject [], rest)
                 else (case basic_members n cs of
                         None \<Rightarrow> None
                       | Some (kvs, rest') \<Rightarrow> Some (JObject kvs, rest')))
          else if startswith (c # cs) (str ''null'') then Some (JNull, drop 4 (c # cs))
          else if startswith (c # cs) (str ''true'') then Some (JBool True, drop 4 (c # cs))
          else if startswith (c # cs) (str ''false'') then Some (JBool False, drop 5 (c # cs))
          else basic_int (c # cs))"
| "basic_elements 0 s = None"
| "basic_elements (Suc n) s =
     (case basic_value n s of
        None \<Rightarrow> None
      | Some (x, rest) \<Rightarrow>
          (case dropWhile json_ws rest of
             [] \<Rightarrow> None
           | c # rest' \<Rightarrow>
               if c = 93 then Some ([x], rest')
               else if c = 44 then
                 (case basic_elements n rest' of
                    None \<Rightarrow> None
                  | Some (xs, rest'') \<Rightarrow> Some (x # xs, rest''))
               else None))"
| "basic_members 0 s = None"
| "basic_members (Suc n) s =
     (case dropWhile json_ws s of
        [] \<Rightarrow> None
      | q # s1 \<Rightarrow>
          if q \<noteq> 34 then None
          else case basic_string s1 of
            None \<Rightarrow> None
          | Some (k, s2) \<Rightarrow>
              (case dropWhile json_ws s2 of
                 [] \<Rightarrow> None
               | colon # s3 \<Rightarrow>
                   if colon \<noteq> 58 then None
                   else case basic_value n s3 of
                     None \<Rightarrow> None
                   | Some (v, s4) \<Rightarrow>
                       (case dropWhile json_ws s4 of
                          [] \<Rightarrow> None
                        | c # s5 \<Rightarrow>
                            if c = 125 then Some ([(k, v)], s5)
                            else if c = 44 then
                              (case basic_members n s5 of
                                 None \<Rightarrow> None
                               | Some (kvs, s6) \<Rightarrow>
                                   if contains kvs k then None else Some ((k, v) # kvs, s6))
                            else None)))"

definition loads_basic :: "pystr \<Rightarrow> error + json" where
  "loads_basic text =
     (case basic_value (Suc (length text)) text of
        None \<Rightarrow> Inl JSONDecodeError
      | Some (v, rest) \<Rightarrow> if dropWhile json_ws rest = [] then Inr v else Inl JSONDecodeError)"

text \<open>
  \<open>literal_eval_plain\<close> evaluates a list display of string literals in single or double
  quotes, without backslashes, separated by commas and blanks, as \<open>ast.literal_eval\<close>
  does. It rejects every other text, among them a string literal that is not closed; on
  other literals \<open>ast.literal_eval\<close> does not always raise.
\<close>

fun plain_string :: "pystr \<Rightarrow> (pystr \<times> pystr) option" where
  "plain_string [] = None"
| "plain_string (q # cs) =
     (if q = 34 \<or> q = 39 then
        (let body = takeWhile (\<lambda>c. c \<noteq> q) cs; rest = dropWhile (\<lambda>c. c \<noteq> q) cs
         in if rest = [] \<or> (\<exists>c \<in> set body. c = 92 \<or> c < 32) then None
            else Some (body, tl rest))
      else None)"

fun plain_items :: "nat \<Rightarrow> pystr \<Rightarrow> pylit list option" where
  "plain_items 0 s = None"
| "plain_items (Suc n) s =
     (case plain_string (dropWhile (\<lambda>c. c = 32) s) of
        None \<Rightarrow> None
      | Some (x, rest) \<Rightarrow>
          (case dropWhile (\<lambda>c. c = 32) rest of
             [] \<Rightarrow> Some [LStr x]
           | c # rest' \<Rightarrow>
               if c \<noteq> 44 then None
               else if dropWhile (\<lambda>c. c = 32) rest' = [] then Some [LStr x]
               else (case plain_items n rest' of None \<Rightarrow> None | Some xs \<Rightarrow> Some (LStr x # xs))))"

definition literal_eval_plain :: "pystr \<Rightarrow> error + pylit list" where
  "literal_eval_plain text =
     (if length text < 2 \<or> hd text \<noteq> 91 \<or> last text \<noteq> 93 then Inl SyntaxError
      else let inner = butlast (tl text)
           in if dropWhile (\<lambda>c. c = 32) inner = [] then Inr []
              else case plain_items (length inner) inner of
                     None \<Rightarrow> Inl SyntaxError
                   | Some xs \<Rightarrow> Inr xs)"


section \<open>Facts about dictionaries and prefixes\<close>

lemma startswith_iff: "startswith s p \<longleftrightarrow> (\<exists>r. s = p @ r)"
  by (induction s p rule: startswith.induct) auto

lemma startswith_drop: "startswith s p \<Longrightarrow> p @ drop (length p) s = s"
  by (auto simp: startswith_iff)

lemma keys_setitem: "set (keys (setitem d k v)) = insert k (set (keys d))"
  by (induction d k v rule: setitem.induct) (auto simp: keys_def)

lemma getitem_setitem: "getitem (setitem d k v) k' = (if k' = k then Some v else getitem d k')"
  by (induction d k v rule: setitem.induct) (auto simp: getitem_def)

lemma getitem_None_iff: "getitem d k = None \<longleftrightarrow> \<not> contains d k"
  by (simp add: getitem_def contains_def keys_def map_of_eq_None_iff)

lemma getitem_distinct: "distinct (keys d) \<Longrightarrow> (k, v) \<in> set d \<Longrightarrow> getitem d k = Some v"
  by (simp add: getitem_def keys_def)

lemma distinct_setitem: "distinct (keys d) \<Longrightarrow> distinct (keys (setitem d k v))"
proof (induction d k v rule: setitem.induct)
  case (1 k v)
  then show ?case by (simp add: keys_def)
next
  case (2 k' v' d k v)
  have "set (map fst (setitem d k v)) = insert k (set (map fst d))"
    using keys_setitem [of d k v] by (simp add: keys_def)
  with 2 show ?case by (auto simp: keys_def)
qed

lemma contains_setitem: "contains (setitem d k v) k' \<longleftrightarrow> k' = k \<or> contains d k'"
  by (auto simp: contains_def keys_setitem)

lemma contains_getitem: "contains d k \<longleftrightarrow> (\<exists>v. getitem d k = Some v)"
  using getitem_None_iff [of d k] by auto

lemma alias_item_keeps:
  "getitem expanded k = Some v \<Longrightarrow> getitem (alias_item a t expanded item) k = Some v"
  by (cases item) (auto simp: alias_item_def Let_def getitem_setitem contains_getitem)

lemma expand_rule_keeps:
  "getitem expanded k = Some v \<Longrightarrow> getitem (expand_rule a t items expanded) k = Some v"
  by (induction items arbitrary: expanded) (auto simp: alias_item_keeps)

lemma expand_rules_keeps:
  "getitem expanded k = Some v \<Longrightarrow> getitem (expand_rules sources remaps expanded) k = Some v"
  by (induction sources remaps expanded rule: expand_rules.induct) (auto simp: expand_rule_keeps)

lemma expand_rule_append:
  "expand_rule a t (xs @ ys) expanded = expand_rule a t ys (expand_rule a t xs expanded)"
  by (induction xs arbitrary: expanded) auto

lemma expand_rules_append:
  "expand_rules sources (xs @ ys) expanded = expand_rules sources ys (expand_rules sources xs expanded)"
  by (induction sources xs expanded rule: expand_rules.induct) auto

lemma alias_item_binds:
  "startswith p t \<Longrightarrow> \<not> contains expanded (a @ drop (length t) p) \<Longrightarrow>
   getitem (alias_item a t expanded (p, c)) (a @ drop (length t) p) = Some c"
  by (simp add: alias_item_def getitem_setitem)

lemma alias_item_other:
  "p' \<noteq> p \<Longrightarrow> startswith p t \<Longrightarrow> \<not> contains expanded (a @ drop (length t) p) \<Longrightarrow>
   \<not> contains (alias_item a t expanded (p', c')) (a @ drop (length t) p)"
  by (auto simp: alias_item_def Let_def contains_setitem startswith_iff)

lemma expand_rule_binds:
  "distinct (map fst items) \<Longrightarrow> (p, c) \<in> set items \<Longrightarrow> startswith p t \<Longrightarrow>
   \<not> contains expanded (a @ drop (length t) p) \<Longrightarrow>
   getitem (expand_rule a t items expanded) (a @ drop (length t) p) = Some c"
proof (induction items arbitrary: expanded)
  case Nil
  then show ?case by simp
next
  case (Cons item items)
  show ?case
  proof (cases "item = (p, c)")
    case True
    with Cons.prems show ?thesis
      by (simp add: expand_rule_keeps alias_item_binds)
  next
    case False
    obtain p' c' where item: "item = (p', c')" by (cases item)
    from False Cons.prems item have in_rest: "(p, c) \<in> set items" by auto
    with Cons.prems item have "p' \<noteq> p" by force
    then have "\<not> contains (alias_item a t expanded (p', c')) (a @ drop (length t) p)"
      using Cons.prems by (simp add: alias_item_other)
    with Cons.IH [OF _ in_rest] Cons.prems show ?thesis
      by (simp add: item)
  qed
qed

lemma alias_item_origin:
  "getitem (alias_item a t expanded item) k = Some v \<Longrightarrow>
   getitem expanded k = Some v \<or> (\<exists>p. item = (p, v) \<and> startswith p t \<and> k = a @ drop (length t) p)"
  by (cases item) (auto simp: alias_item_def Let_def getitem_setitem split: if_splits)

lemma expand_rule_origin:
  "getitem (expand_rule a t items expanded) k = Some v \<Longrightarrow>
   getitem expanded k = Some v \<or>
   (\<exists>p. (p, v) \<in> set items \<and> startswith p t \<and> k = a @ drop (length t) p)"
proof (induction items arbitrary: expanded)
  case Nil
  then show ?case by simp
next
  case (Cons item items)
  from Cons.prems
  have "getitem (expand_rule a t items (alias_item a t expanded item)) k = Some v" by simp
  from Cons.IH [OF this] show ?case
    using alias_item_origin [of a t expanded item k v] by auto
qed

lemma expand_rules_origin:
  "getitem (expand_rules sources remaps expanded) k = Some v \<Longrightarrow>
   getitem expanded k = Some v \<or>
   (\<exists>a t p. (a, t) \<in> set remaps \<and> (p, v) \<in> set sources \<and> startswith p t \<and>
      k = a @ drop (length t) p)"
proof (induction sources remaps expanded rule: expand_rules.induct)
  case (1 sources expanded)
  then show ?case by simp
next
  case (2 sources a t remaps expanded)
  from "2.prems"
  have "getitem (expand_rules sources remaps (expand_rule a t sources expanded)) k = Some v"
    by simp
  from "2.IH" [OF this] show ?case
    using expand_rule_origin [of a t sources expanded k v] by auto
qed

lemmas expander_eval =
  expand_alias_sources_def alias_item_def contains_def keys_def getitem_def Let_def

section \<open>Rules that match nothing\<close>

lemma expand_rule_no_match:
  "\<forall>item \<in> set items. \<not> startswith (fst item) target \<Longrightarrow>
   expand_rule alias target items expanded = expanded"
  by (induction items arbitrary: expanded) (auto simp: alias_item_def)

lemma expand_rules_no_match:
  "\<forall>rule \<in> set remaps. \<forall>item \<in> set sources. \<not> startswith (fst item) (snd rule) \<Longrightarrow>
   expand_rules sources remaps expanded = expanded"
proof (induction remaps arbitrary: expanded)
  case Nil
  then show ?case by simp
next
  case (Cons rl remaps)
  obtain a t where r: "rl = (a, t)" by (cases rl)
  from Cons.prems have "\<forall>item \<in> set sources. \<not> startswith (fst item) t"
    by (simp add: r)
  then have "expand_rule a t sources expanded = expanded"
    by (rule expand_rule_no_match)
  with Cons show ?case by (simp add: r)
qed

text \<open>
  Claim C5. When no rule's target is a prefix of any path of the source map, the alias
  expander returns its input: the same keys, bound to the same contents, in the same
  order.
\<close>

theorem expand_alias_sources_no_match:
  assumes "\<forall>(alias, target) \<in> set remaps. \<forall>path \<in> set (keys sources). \<not> startswith path target"
  shows "expand_alias_sources sources remaps = sources"
proof -
  from assms
  have "\<forall>rule \<in> set remaps. \<forall>item \<in> set sources. \<not> startswith (fst item) (snd rule)"
    by (fastforce simp: keys_def)
  then show ?thesis
    unfolding expand_alias_sources_def by (rule expand_rules_no_match)
qed

theorem expand_alias_sources_no_match_witness:
  "expand_alias_sources [(''src/Pool.sol'', ''pragma solidity'')]
     [(''@chainlink/'', ''lib/chainlink/'')]
   = [(''src/Pool.sol'', ''pragma solidity'')]"
  by (rule expand_alias_sources_no_match) (simp add: keys_def)

section \<open>What the alias expander adds\<close>

text \<open>
  Claim C1. For a source map (a dict: its keys are distinct) and a rule list, take the
  rule \<open>(alias, target)\<close> at position \<open>i\<close> and an item \<open>(path, content)\<close> of the input map
  with \<open>path\<close> starting with \<open>target\<close>. The key \<open>alias + path[len(target):]\<close> is a key of
  the result; it is bound to \<open>content\<close> unless it was already a key of the map built by the
  rules before position \<open>i\<close>; and every original item is still bound as it was.
\<close>

theorem expand_alias_sources_adds_aliases:
  assumes "distinct (keys sources)"
    and "i < length remaps" and "remaps ! i = (alias, target)"
    and "(path, content) \<in> set sources" and "startswith path target"
  shows "contains (expand_alias_sources sources remaps) (alias @ drop (length target) path)
       \<and> (\<not> contains (expand_alias_sources sources (take i remaps))
               (alias @ drop (length target) path)
            \<longrightarrow> getitem (expand_alias_sources sources remaps)
                  (alias @ drop (length target) path) = Some content)
       \<and> (\<forall>(p, c) \<in> set sources. getitem (expand_alias_sources sources remaps) p = Some c)"
proof -
  let ?cand = "alias @ drop (length target) path"
  let ?before = "expand_rules sources (take i remaps) sources"
  let ?after = "expand_rule alias target sources ?before"
  have split: "remaps = take i remaps @ (alias, target) # drop (Suc i) remaps"
    using assms(2,3) by (metis id_take_nth_drop)
  have result: "expand_rules sources remaps sources
      = expand_rules sources (drop (Suc i) remaps) ?after"
    by (subst split) (simp add: expand_rules_append)
  have bound: "getitem ?after ?cand = Some content" if "\<not> contains ?before ?cand"
    using assms(1,4,5) that by (simp add: expand_rule_binds keys_def)
  have present: "\<exists>v. getitem ?after ?cand = Some v"
  proof (cases "contains ?before ?cand")
    case True
    then obtain v where "getitem ?before ?cand = Some v" by (auto simp: contains_getitem)
    then show ?thesis by (auto simp: expand_rule_keeps)
  next
    case False
    then show ?thesis using bound by simp
  qed
  have 1: "contains (expand_alias_sources sources remaps) ?cand"
    using present unfolding expand_alias_sources_def result
    by (auto simp: contains_getitem expand_rules_keeps)
  have 2: "getitem (expand_alias_sources sources remaps) ?cand = Some content"
    if "\<not> contains (expand_alias_sources sources (take i remaps)) ?cand"
    using bound that unfolding expand_alias_sources_def result
    by (simp add: expand_rules_keeps)
  have 3: "getitem (expand_alias_sources sources remaps) p = Some c" if "(p, c) \<in> set sources" for p c
    unfolding expand_alias_sources_def
    using assms(1) that by (simp add: expand_rules_keeps getitem_distinct)
  from 1 2 3 show ?thesis by auto
qed

theorem expand_alias_sources_adds_aliases_witness:
  "getitem (expand_alias_sources [(''lib/chainlink/contracts/Token.sol'', ''CONTENT'')]
       [(''@chainlink/'', ''lib/chainlink/'')]) ''@chainlink/contracts/Token.sol'' = Some ''CONTENT''
   \<and> getitem (expand_alias_sources [(''lib/chainlink/contracts/Token.sol'', ''CONTENT'')]
       [(''@chainlink/'', ''lib/chainlink/'')]) ''lib/chainlink/contracts/Token.sol'' = Some ''CONTENT''"
  using expand_alias_sources_adds_aliases
    [of "[(''lib/chainlink/contracts/Token.sol'', ''CONTENT'')]" 0
        "[(''@chainlink/'', ''lib/chainlink/'')]" "''@chainlink/''" "''lib/chainlink/''"
        "''lib/chainlink/contracts/Token.sol''" "''CONTENT''"]
  by (simp add: expander_eval)

section \<open>First writer wins\<close>

text \<open>
  Claim C2. A binding of the growing map is never changed: a binding of the input map is
  a binding of the result; a binding present after the rules \<open>pre\<close> is present after any
  further rules \<open>post\<close>; and a binding present at any point inside the loop of a rule
  (after \<open>n\<close> items of the source map) is a binding of the result. So when two rules
  produce the same candidate key, the content the first one bound stays.
\<close>

theorem expand_alias_sources_first_writer_wins:
  "(getitem sources key = Some v \<longrightarrow>
      getitem (expand_alias_sources sources remaps) key = Some v)
   \<and> (getitem (expand_alias_sources sources pre) key = Some v \<longrightarrow>
      getitem (expand_alias_sources sources (pre @ post)) key = Some v)
   \<and> (getitem (expand_rule alias target (take n sources) (expand_alias_sources sources pre)) key
        = Some v \<longrightarrow>
      getitem (expand_alias_sources sources (pre @ (alias, target) # post)) key = Some v)"
proof -
  have "getitem (expand_alias_sources sources (pre @ (alias, target) # post)) key = Some v"
    if "getitem (expand_rule alias target (take n sources) (expand_alias_sources sources pre)) key
        = Some v"
  proof -
    have "expand_rule alias target sources (expand_alias_sources sources pre)
        = expand_rule alias target (drop n sources)
            (expand_rule alias target (take n sources) (expand_alias_sources sources pre))"
      using expand_rule_append [of _ _ "take n sources" "drop n sources"] by simp
    with that show ?thesis
      by (simp add: expand_alias_sources_def expand_rules_append expand_rules_keeps
          expand_rule_keeps)
  qed
  then show ?thesis
    by (simp add: expand_alias_sources_def expand_rules_append expand_rules_keeps)
qed

theorem expand_alias_sources_first_writer_wins_witness:
  "getitem (expand_alias_sources [(''x/f'', ''X''), (''y/f'', ''Y'')] [(''@a/'', ''x/'')]) ''@a/f''
     = Some ''X''
   \<and> getitem (expand_alias_sources [(''x/f'', ''X''), (''y/f'', ''Y'')]
        ([(''@a/'', ''x/'')] @ [(''@a/'', ''y/'')])) ''@a/f'' = Some ''X''
   \<and> getitem (expand_alias_sources [(''x/f'', ''X''), (''y/f'', ''Y'')]
        [(''@a/'', ''x/''), (''@a/'', ''y/'')]) ''y/f'' = Some ''Y''
   \<and> getitem (expand_alias_sources [(''x/f'', ''X''), (''y/f'', ''Y'')]
        ([] @ (''@a/'', ''x/'') # [(''@a/'', ''y/'')])) ''@a/f'' = Some ''X''"
proof -
  let ?s = "[(''x/f'', ''X''), (''y/f'', ''Y'')]"
  have first: "getitem (expand_alias_sources ?s [(''@a/'', ''x/'')]) ''@a/f'' = Some ''X''"
    by (simp add: expander_eval)
  have original: "getitem ?s ''y/f'' = Some ''Y''"
    by (simp add: getitem_def)
  have inside: "getitem (expand_rule ''@a/'' ''x/'' (take 1 ?s) (expand_alias_sources ?s []))
      ''@a/f'' = Some ''X''"
    by (simp add: expander_eval)
  from expand_alias_sources_first_writer_wins
    [of ?s "''@a/f''" "''X''" "[]" "[(''@a/'', ''x/'')]" "[(''@a/'', ''y/'')]"] first
  have 1: "getitem (expand_alias_sources ?s ([(''@a/'', ''x/'')] @ [(''@a/'', ''y/'')])) ''@a/f''
      = Some ''X''"
    by blast
  from expand_alias_sources_first_writer_wins
    [of ?s "''y/f''" "''Y''" "[(''@a/'', ''x/''), (''@a/'', ''y/'')]"] original
  have 2: "getitem (expand_alias_sources ?s [(''@a/'', ''x/''), (''@a/'', ''y/'')]) ''y/f''
      = Some ''Y''"
    by blast
  from expand_alias_sources_first_writer_wins
    [of ?s "''@a/f''" "''X''" "[]" "[]" "[(''@a/'', ''y/'')]" "''@a/''" "''x/''" 1] inside
  have 3: "getitem (expand_alias_sources ?s ([] @ (''@a/'', ''x/'') # [(''@a/'', ''y/'')])) ''@a/f''
      = Some ''X''"
    by blast
  from first 1 2 3 show ?thesis by blast
qed

section \<open>Where the keys of the expanded map come from\<close>

text \<open>
  Claim C9, as the code has it. Rules are matched against the items of the original source
  map only, so every binding \<open>key \<mapsto> content\<close> of the expanded map is a binding of the
  original map, or \<open>key = alias + suffix\<close> for at least one rule \<open>(alias, target)\<close> and one
  original item \<open>(target + suffix, content)\<close>. The rule and the path need not be unique.
\<close>

theorem expand_alias_sources_keys_from_original:
  assumes "getitem (expand_alias_sources sources remaps) key = Some content"
  shows "getitem sources key = Some content
       \<or> (\<exists>alias target path. (alias, target) \<in> set remaps \<and> (path, content) \<in> set sources
            \<and> path = target @ drop (length target) path
            \<and> key = alias @ drop (length target) path)"
  using expand_rules_origin [OF assms [unfolded expand_alias_sources_def]]
  by (metis startswith_drop)

theorem expand_alias_sources_keys_from_original_witness:
  "keys (expand_alias_sources [(''lib/a'', ''A'')] [(''x/'', ''lib/''), (''y/'', ''x/'')])
     = [''lib/a'', ''x/a'']
   \<and> (getitem [(''lib/a'', ''A'')] ''x/a'' = Some ''A''
      \<or> (\<exists>alias target path. (alias, target) \<in> set [(''x/'', ''lib/''), (''y/'', ''x/'')]
            \<and> (path, ''A'') \<in> set [(''lib/a'', ''A'')]
            \<and> path = target @ drop (length target) path
            \<and> ''x/a'' = alias @ drop (length target) path))"
proof
  show "keys (expand_alias_sources [(''lib/a'', ''A'')] [(''x/'', ''lib/''), (''y/'', ''x/'')])
     = [''lib/a'', ''x/a'']"
    by (simp add: expander_eval)
  have "getitem (expand_alias_sources [(''lib/a'', ''A'')] [(''x/'', ''lib/''), (''y/'', ''x/'')])
      ''x/a'' = Some ''A''"
    by (simp add: expander_eval)
  then show "getitem [(''lib/a'', ''A'')] ''x/a'' = Some ''A''
      \<or> (\<exists>alias target path. (alias, target) \<in> set [(''x/'', ''lib/''), (''y/'', ''x/'')]
            \<and> (path, ''A'') \<in> set [(''lib/a'', ''A'')]
            \<and> path = target @ drop (length target) path
            \<and> ''x/a'' = alias @ drop (length target) path)"
    by (rule expand_alias_sources_keys_from_original)
qed

text \<open>
  The claim's "exactly one rule and one original path" fails: with the sources \<open>x/f\<close> and
  \<open>y/f\<close> and the rules \<open>@a/=x/\<close> and \<open>@a/=y/\<close>, the key \<open>@a/f\<close> of the result is not an
  original path and arises from two different rules and two different paths.
\<close>

theorem alias_key_two_derivations_counterexample:
  "contains (expand_alias_sources [(''x/f'', ''X''), (''y/f'', ''Y'')]
       [(''@a/'', ''x/''), (''@a/'', ''y/'')]) ''@a/f''
   \<and> \<not> contains [(''x/f'', ''X''), (''y/f'', ''Y'')] ''@a/f''
   \<and> alias_derivations [(''x/f'', ''X''), (''y/f'', ''Y'')]
        [(''@a/'', ''x/''), (''@a/'', ''y/'')] ''@a/f''
      = [((''@a/'', ''x/''), ''x/f''), ((''@a/'', ''y/''), ''y/f'')]"
  by (simp add: expander_eval alias_derivations_def)

section \<open>The two forms of the metadata\<close>

text \<open>
  Claim C3. Let \<open>m\<close> be a metadata record and \<open>s\<close> a text that the decoder reads as \<open>m\<close>.
  An artifact whose \<open>metadata\<close> field is the object \<open>m\<close> and an artifact whose \<open>metadata\<close>
  field is the string \<open>s\<close> give the same loader result, the record \<open>m\<close>.
\<close>

theorem load_artifact_metadata_forms:
  assumes "loads s = Inr (JObject m)"
    and "read_text fs1 ARTIFACT = Inr t1" and "loads t1 = Inr data1"
    and "subscript data1 (str ''metadata'') = Inr (JObject m)"
    and "read_text fs2 ARTIFACT = Inr t2" and "loads t2 = Inr data2"
    and "subscript data2 (str ''metadata'') = Inr (JString s)"
  shows "load_artifact loads fs1 = Inr (JObject m)
       \<and> load_artifact loads fs2 = load_artifact loads fs1"
  using assms by (simp add: load_artifact_def)

theorem load_artifact_metadata_forms_witness:
  "load_artifact loads_basic
     [ARTIFACT \<mapsto> str ''{\"metadata\": {\"language\": \"Solidity\", \"settings\": {}}}'']
     = Inr (JObject [(str ''language'', JString (str ''Solidity'')), (str ''settings'', JObject [])])
   \<and> load_artifact loads_basic
     [ARTIFACT \<mapsto> str_bs ''{\"metadata\": \"{^\"language^\": ^\"Solidity^\", ^\"settings^\": {}}\"}'']
     = load_artifact loads_basic
     [ARTIFACT \<mapsto> str ''{\"metadata\": {\"language\": \"Solidity\", \"settings\": {}}}'']"
proof (rule load_artifact_metadata_forms)
  show "loads_basic (str ''{\"language\": \"Solidity\", \"settings\": {}}'')
      = Inr (JObject [(str ''language'', JString (str ''Solidity'')), (str ''settings'', JObject [])])"
    by code_simp
  show "read_text [ARTIFACT \<mapsto> str ''{\"metadata\": {\"language\": \"Solidity\", \"settings\": {}}}''] ARTIFACT
      = Inr (str ''{\"metadata\": {\"language\": \"Solidity\", \"settings\": {}}}'')"
    by (simp add: read_text_def)
  show "loads_basic (str ''{\"metadata\": {\"language\": \"Solidity\", \"settings\": {}}}'')
      = Inr (JObject [(str ''metadata'',
          JObject [(str ''language'', JString (str ''Solidity'')), (str ''settings'', JObject [])])])"
    by code_simp
  show "subscript (JObject [(str ''metadata'',
          JObject [(str ''language'', JString (str ''Solidity'')), (str ''settings'', JObject [])])])
        (str ''metadata'')
      = Inr (JObject [(str ''language'', JString (str ''Solidity'')), (str ''settings'', JObject [])])"
    by code_simp
  show "read_text [ARTIFACT \<mapsto> str_bs ''{\"metadata\": \"{^\"language^\": ^\"Solidity^\", ^\"settings^\": {}}\"}''] ARTIFACT
      = Inr (str_bs ''{\"metadata\": \"{^\"language^\": ^\"Solidity^\", ^\"settings^\": {}}\"}'')"
    by (simp add: read_text_def)
  show "loads_basic (str_bs ''{\"metadata\": \"{^\"language^\": ^\"Solidity^\", ^\"settings^\": {}}\"}'')
      = Inr (JObject [(str ''metadata'', JString (str ''{\"language\": \"Solidity\", \"settings\": {}}''))])"
    by code_simp
  show "subscript (JObject [(str ''metadata'', JString (str ''{\"language\": \"Solidity\", \"settings\": {}}''))])
        (str ''metadata'')
      = Inr (JString (str ''{\"language\": \"Solidity\", \"settings\": {}}''))"
    by code_simp
qed

section \<open>A missing source file\<close>





section \<open>The document written\<close>








section \<open>A hash sign inside a remapping string\<close>

lemma parse_block_hash:
  "parse_block literal_eval (str ''\"a#b=lib/\"'')
   = (case literal_eval (str ''[\"a]'') of Inl e \<Rightarrow> Inl e | Inr items \<Rightarrow> remapping_items items [])"
proof -
  have "clean_lines (splitlines (str ''\"a#b=lib/\"'')) [] = [str ''\"a'']"
    by code_simp
  moreover have "[91] @ join [44] [str ''\"a''] @ [93] = str ''[\"a]''"
    by code_simp
  ultimately show ?thesis
    by (simp add: parse_block_def)
qed

lemma search_block_example:
  "search_block (str ''remappings = [\"a#b=lib/\"]'') = Some (str ''\"a#b=lib/\"'')"
  by code_simp


lemma split_once_join:
  "split_once sep s = [a, b] \<Longrightarrow> s = a @ sep # b"
proof -
  assume h: "split_once sep s = [a, b]"
  then obtain c rest where d: "dropWhile (\<lambda>c. c \<noteq> sep) s = c # rest"
    and a: "a = takeWhile (\<lambda>c. c \<noteq> sep) s" and b: "b = rest"
    by (auto simp: split_once_def split: list.splits)
  from d have "c = sep" using hd_dropWhile [of "\<lambda>c. c \<noteq> sep" s] by auto
  with d a b show ?thesis
    using takeWhile_dropWhile_id [of "\<lambda>c. c \<noteq> sep" s] by simp
qed

lemma remapping_items_length:
  "remapping_items items acc = Inr result \<Longrightarrow> length result = length acc + length items"
proof (induction items arbitrary: acc)
  case Nil
  then show ?case by simp
next
  case (Cons item items)
  then obtain s a b where "item = LStr s" "split_once 61 s = [a, b]"
    "remapping_items items (acc @ [(a, b)]) = Inr result"
    by (auto simp: split_once_def split: pylit.splits list.splits)
  with Cons.IH [of "acc @ [(a, b)]"] show ?case by simp
qed

lemma remapping_items_single:
  assumes "remapping_items items [] = Inr [(a, b)]"
  shows "items = [LStr (a @ 61 # b)]"
proof -
  from remapping_items_length [OF assms] have "length items = 1" by simp
  then obtain item where items: "items = [item]"
    by (cases items) auto
  with assms obtain s where item: "item = LStr s" and "split_once 61 s = [a, b]"
    by (auto simp: split_once_def split: pylit.splits list.splits)
  then show ?thesis using items by (simp add: split_once_join)
qed

text \<open>
  Claim C10. For the configuration \<open>remappings = ["a#b=lib/"]\<close>, whose only entry has a
  \<open>#\<close> inside the string, the parser cuts the line at the \<open>#\<close>: the text it gives to
  \<open>ast.literal_eval\<close> is \<open>["a]\<close>, and its result is what comes of that text. With an
  evaluator that rejects the unclosed string the run ends with that error; and the entry
  is returned as written only by an evaluator that reads \<open>["a]\<close> as \<open>["a#b=lib/"]\<close>.
\<close>

theorem parse_remappings_truncates_at_hash:
  "parse_remappings literal_eval [FOUNDRY_TOML \<mapsto> str ''remappings = [\"a#b=lib/\"]'']
     = (case literal_eval (str ''[\"a]'') of
          Inl e \<Rightarrow> Inl e
        | Inr items \<Rightarrow> remapping_items items [])
   \<and> (literal_eval (str ''[\"a]'') = Inl SyntaxError \<longrightarrow>
        parse_remappings literal_eval [FOUNDRY_TOML \<mapsto> str ''remappings = [\"a#b=lib/\"]'']
          = Inl SyntaxError)
   \<and> (literal_eval (str ''[\"a]'') \<noteq> Inr [LStr (str ''a#b=lib/'')] \<longrightarrow>
        parse_remappings literal_eval [FOUNDRY_TOML \<mapsto> str ''remappings = [\"a#b=lib/\"]'']
          \<noteq> Inr [(str ''a#b'', str ''lib/'')])"
proof -
  have run: "parse_remappings literal_eval [FOUNDRY_TOML \<mapsto> str ''remappings = [\"a#b=lib/\"]'']
     = (case literal_eval (str ''[\"a]'') of
          Inl e \<Rightarrow> Inl e
        | Inr items \<Rightarrow> remapping_items items [])"
    by (simp add: parse_remappings_def read_text_def search_block_example parse_block_hash)
  have "literal_eval (str ''[\"a]'') = Inr [LStr (str ''a#b=lib/'')]"
    if "parse_remappings literal_eval [FOUNDRY_TOML \<mapsto> str ''remappings = [\"a#b=lib/\"]'']
          = Inr [(str ''a#b'', str ''lib/'')]"
  proof -
    from that run obtain items where items: "literal_eval (str ''[\"a]'') = Inr items"
      and "remapping_items items [] = Inr [(str ''a#b'', str ''lib/'')]"
      by (auto split: sum.splits)
    from remapping_items_single [OF this(2)] items show ?thesis
      by (simp add: str_def)
  qed
  with run show ?thesis by auto
qed

theorem parse_remappings_truncates_at_hash_witness:
  "literal_eval_plain (str ''[\"a]'') = Inl SyntaxError
   \<and> parse_remappings literal_eval_plain [FOUNDRY_TOML \<mapsto> str ''remappings = [\"a#b=lib/\"]'']
       = Inl SyntaxError
   \<and> parse_remappings literal_eval_plain [FOUNDRY_TOML \<mapsto> str ''remappings = [\"a#b=lib/\"]'']
       \<noteq> Inr [(str ''a#b'', str ''lib/'')]"
proof -
  have rejected: "literal_eval_plain (str ''[\"a]'') = Inl SyntaxError"
    by code_simp
  then have other: "literal_eval_plain (str ''[\"a]'') \<noteq> Inr [LStr (str ''a#b=lib/'')]"
    by simp
  from parse_remappings_truncates_at_hash [of literal_eval_plain] rejected other show ?thesis
    by blast
qed

section \<open>Comments and the trailing comma\<close>

lemma is_linebreak_space: "is_linebreak c \<Longrightarrow> is_space c"
  by (auto simp: is_linebreak_def is_space_def)

lemma not_space_simps [simp]: "\<not> is_space 35" "\<not> is_space 44"
  by (simp_all add: is_space_def)

lemma clean_lines_entries: "clean_lines ls acc = acc @ concat (map line_entry ls)"
  by (induction ls arbitrary: acc) (simp_all add: line_entry_def Let_def)

lemma before_hash: "hd (split_once 35 line) = takeWhile (\<lambda>c. c \<noteq> 35) line"
proof (cases "dropWhile (\<lambda>c. c \<noteq> 35) line")
  case Nil
  then have t: "takeWhile (\<lambda>c. c \<noteq> 35) line = line"
    by (simp add: dropWhile_eq_Nil_conv takeWhile_eq_all_conv)
  show ?thesis unfolding split_once_def Nil by (simp add: t)
next
  case (Cons c rest)
  show ?thesis unfolding split_once_def Cons by simp
qed

lemma endswith_single: "endswith s [c] \<longleftrightarrow> s \<noteq> [] \<and> last s = c"
proof (cases "rev s")
  case Nil
  then show ?thesis by (simp add: endswith_def)
next
  case (Cons x xs)
  then have "s = rev xs @ [x]" by (metis rev_rev_ident rev.simps(2))
  with Cons show ?thesis by (auto simp: endswith_def)
qed

lemma rstrip_spaces: "\<forall>c \<in> set ws. is_space c \<Longrightarrow> rstrip (x @ ws) = rstrip x"
  by (induction ws rule: rev_induct) (simp_all add: rstrip_def)

lemma rstrip_nonspace: "x \<noteq> [] \<Longrightarrow> \<not> is_space (last x) \<Longrightarrow> rstrip x = x"
  by (cases x rule: rev_cases) (simp_all add: rstrip_def)

lemma rstrip_only_spaces: "\<forall>c \<in> set ws. is_space c \<Longrightarrow> rstrip ws = []"
  using rstrip_spaces [of ws "[]"] by (simp add: rstrip_def)

lemma lstrip_append: "\<exists>c \<in> set x. \<not> is_space c \<Longrightarrow> lstrip (x @ y) = lstrip x @ y"
  by (auto simp: lstrip_def dropWhile_append1)

lemma lstrip_last:
  assumes "x \<noteq> []" "\<not> is_space (last x)"
  shows "lstrip x \<noteq> [] \<and> last (lstrip x) = last x"
proof -
  obtain ys where x: "x = ys @ [last x]" using assms(1) by (metis append_butlast_last_id)
  show ?thesis
  proof (cases "\<exists>c \<in> set ys. \<not> is_space c")
    case True
    then have "lstrip (ys @ [last x]) = lstrip ys @ [last x]" by (rule lstrip_append)
    with x show ?thesis by (metis last_snoc snoc_eq_iff_butlast)
  next
    case False
    then have "dropWhile is_space (ys @ [last x]) = dropWhile is_space [last x]"
      by (simp add: dropWhile_append2)
    with assms(2) x show ?thesis by (simp add: lstrip_def)
  qed
qed

lemma line_entry_spaces: "\<forall>c \<in> set l. is_space c \<Longrightarrow> line_entry l = []"
proof -
  assume h: "\<forall>c \<in> set l. is_space c"
  then have "\<forall>c \<in> set (takeWhile (\<lambda>c. c \<noteq> 35) l). is_space c"
    by (meson set_takeWhileD)
  then have "\<forall>c \<in> set (lstrip (takeWhile (\<lambda>c. c \<noteq> 35) l)). is_space c"
    unfolding lstrip_def by (meson set_dropWhileD)
  then have "strip (takeWhile (\<lambda>c. c \<noteq> 35) l) = []"
    unfolding strip_def by (rule rstrip_only_spaces)
  then show ?thesis by (simp add: line_entry_def clean_line_def before_hash)
qed

lemma line_entry_tail:
  assumes "l \<noteq> []" "\<not> is_space (last l)" "last l \<noteq> 44"
    and "\<forall>c \<in> set ws. is_space c" and "h = ws \<or> h = 44 # ws"
  shows "line_entry (l @ h) = line_entry l"
proof (cases "35 \<in> set l")
  case True
  then have "takeWhile (\<lambda>c. c \<noteq> 35) (l @ h) = takeWhile (\<lambda>c. c \<noteq> 35) l"
    by (simp add: takeWhile_append1)
  then show ?thesis by (simp add: line_entry_def clean_line_def before_hash)
next
  case False
  have "35 \<notin> set ws" using assms(4) not_space_simps(1) by blast
  with assms(5) have "35 \<notin> set h" by auto
  with False have th: "takeWhile (\<lambda>c. c \<noteq> 35) (l @ h) = l @ h"
    and tl: "takeWhile (\<lambda>c. c \<noteq> 35) l = l"
    by (auto simp: takeWhile_eq_all_conv)
  let ?x = "lstrip l"
  from lstrip_last [OF assms(1,2)] have x: "?x \<noteq> []" "last ?x = last l" by auto
  from assms(1,2) have ex: "\<exists>c \<in> set l. \<not> is_space c" using last_in_set by blast
  have sl: "strip l = ?x"
    unfolding strip_def using x assms(2) by (simp add: rstrip_nonspace)
  have el: "line_entry l = [?x]"
    using x assms(3) by (simp add: line_entry_def clean_line_def before_hash tl sl endswith_single)
  from assms(5) show ?thesis
  proof
    assume "h = ws"
    then have "strip (l @ h) = ?x"
      unfolding strip_def using assms(4) sl
      by (simp add: lstrip_append [OF ex] rstrip_spaces strip_def)
    then show ?thesis
      using x assms(3) el
      by (simp add: line_entry_def clean_line_def before_hash th endswith_single)
  next
    assume h: "h = 44 # ws"
    have "rstrip (?x @ 44 # ws) = rstrip ((?x @ [44]) @ ws)" by simp
    also have "\<dots> = rstrip (?x @ [44])" using assms(4) by (rule rstrip_spaces)
    also have "\<dots> = ?x @ [44]" by (rule rstrip_nonspace) simp_all
    finally have "strip (l @ h) = ?x @ [44]"
      unfolding strip_def h by (simp add: lstrip_append [OF ex])
    then show ?thesis
      using el
      by (simp add: line_entry_def clean_line_def before_hash th endswith_single)
  qed
qed

lemma cons_first_simps [simp]:
  "cons_first c [] = [[c]]" "cons_first c (l # ls) = (c # l) # ls"
  by (simp_all add: cons_first_def)

lemma lines_from_skip: "lines_from True (10 # cs) = lines_from False cs"
  by simp

lemma lines_from_break:
  "\<not> (c = 10 \<and> f) \<Longrightarrow> is_linebreak c \<Longrightarrow> lines_from f (c # cs) = [] # lines_from (c = 13) cs"
  by auto

lemma lines_from_char:
  "\<not> is_linebreak c \<Longrightarrow> lines_from f (c # cs) = cons_first c (lines_from False cs)"
  by (auto simp: is_linebreak_def)

lemmas lines_from_cases = lines_from_skip lines_from_break lines_from_char

declare lines_from.simps(2) [simp del]

lemma lines_from_spaces:
  "\<forall>c \<in> set t. is_space c \<Longrightarrow> \<forall>l \<in> set (lines_from f t). \<forall>c \<in> set l. is_space c"
proof (induction t arbitrary: f)
  case Nil
  then show ?case by simp
next
  case (Cons c t)
  then have IH: "\<forall>l \<in> set (lines_from g t). \<forall>c \<in> set l. is_space c" for g by simp
  from Cons.prems have c: "is_space c" by simp
  consider (skip) "c = 10 \<and> f" | (break) "\<not> (c = 10 \<and> f)" "is_linebreak c"
    | (char) "\<not> is_linebreak c" by blast
  then show ?case
  proof cases
    case skip
    then show ?thesis using IH [of False] by (simp add: lines_from_skip)
  next
    case break
    then show ?thesis using IH [of "c = 13"] by (simp add: lines_from_break)
  next
    case char
    have "\<forall>l \<in> set (cons_first c (lines_from False t)). \<forall>d \<in> set l. is_space d"
    proof (cases "lines_from False t")
      case Nil
      then show ?thesis using c by simp
    next
      case (Cons l ls)
      with IH [of False] c show ?thesis by auto
    qed
    with char show ?thesis by (simp add: lines_from_char)
  qed
qed

lemma scan_tail:
  assumes "\<forall>c \<in> set ws. is_space c" and "t = ws \<or> t = 44 # ws"
  shows "\<exists>ws1 rest. scan t = (if t = ws then ws1 else 44 # ws1) # rest
           \<and> (\<forall>c \<in> set ws1. is_space c) \<and> (\<forall>l \<in> set rest. \<forall>c \<in> set l. is_space c)"
proof -
  have sp: "\<forall>l \<in> set (lines_from False ws). \<forall>c \<in> set l. is_space c"
    using assms(1) by (rule lines_from_spaces)
  have ws: "\<exists>ws1 rest. scan ws = ws1 # rest
           \<and> (\<forall>c \<in> set ws1. is_space c) \<and> (\<forall>l \<in> set rest. \<forall>c \<in> set l. is_space c)"
    using sp by (cases "lines_from False ws") (auto simp: scan_def)
  show ?thesis
  proof (cases "t = ws")
    case True
    with ws show ?thesis by simp
  next
    case False
    with assms(2) have t: "t = 44 # ws" by simp
    have "\<not> is_linebreak 44" by (simp add: is_linebreak_def)
    then have "lines_from False t = cons_first 44 (lines_from False ws)"
      by (simp add: t lines_from_char)
    then have "\<exists>ws1 rest. scan t = (44 # ws1) # rest
           \<and> (\<forall>c \<in> set ws1. is_space c) \<and> (\<forall>l \<in> set rest. \<forall>c \<in> set l. is_space c)"
      using sp by (cases "lines_from False ws") (auto simp: scan_def)
    with False show ?thesis by simp
  qed
qed

lemma lines_from_append:
  assumes "s \<noteq> []" and "\<not> is_linebreak (last s)"
  shows "\<exists>init lst. lines_from f s = init @ [lst] \<and> lst \<noteq> [] \<and> last lst = last s
           \<and> (\<forall>t. lines_from f (s @ t) = init @ (lst @ hd (scan t)) # tl (scan t))"
  using assms
proof (induction s arbitrary: f)
  case Nil
  then show ?case by simp
next
  case (Cons c s)
  show ?case
  proof (cases "s = []")
    case True
    with Cons.prems have nb: "\<not> is_linebreak c" by simp
    have "lines_from f ([c] @ t) = [] @ ([c] @ hd (scan t)) # tl (scan t)" for t
      using nb by (cases "lines_from False t") (simp_all add: scan_def lines_from_char)
    moreover have "lines_from f [c] = [] @ [[c]]" using nb by (simp add: lines_from_char)
    ultimately show ?thesis using True by fastforce
  next
    case False
    with Cons.prems have "\<not> is_linebreak (last s)" by simp
    from Cons.IH [OF False this]
    have IH: "\<exists>init lst. lines_from g s = init @ [lst] \<and> lst \<noteq> [] \<and> last lst = last s
           \<and> (\<forall>t. lines_from g (s @ t) = init @ (lst @ hd (scan t)) # tl (scan t))" for g .
    consider (skip) "c = 10 \<and> f" | (break) "\<not> (c = 10 \<and> f)" "is_linebreak c"
      | (char) "\<not> is_linebreak c" by blast
    then show ?thesis
    proof cases
      case skip
      with IH [of False] False show ?thesis by (simp add: lines_from_skip)
    next
      case break
      from IH [of "c = 13"] obtain init lst where
        "lines_from (c = 13) s = init @ [lst]" "lst \<noteq> []" "last lst = last s"
        "\<forall>t. lines_from (c = 13) (s @ t) = init @ (lst @ hd (scan t)) # tl (scan t)"
        by blast
      then have "lines_from f (c # s) = ([] # init) @ [lst] \<and> lst \<noteq> [] \<and> last lst = last (c # s)
           \<and> (\<forall>t. lines_from f ((c # s) @ t) = ([] # init) @ (lst @ hd (scan t)) # tl (scan t))"
        using break False by (simp add: lines_from_break)
      then show ?thesis by blast
    next
      case char
      from IH [of False] obtain init lst where L:
        "lines_from False s = init @ [lst]" "lst \<noteq> []" "last lst = last s"
        "\<forall>t. lines_from False (s @ t) = init @ (lst @ hd (scan t)) # tl (scan t)"
        by blast
      show ?thesis
      proof (cases init)
        case Nil
        with L have "lines_from f (c # s) = [] @ [c # lst] \<and> c # lst \<noteq> []
           \<and> last (c # lst) = last (c # s)
           \<and> (\<forall>t. lines_from f ((c # s) @ t) = [] @ ((c # lst) @ hd (scan t)) # tl (scan t))"
          using char False by (simp add: lines_from_char)
        then show ?thesis by blast
      next
        case (Cons l init')
        with L have "lines_from f (c # s) = ((c # l) # init') @ [lst] \<and> lst \<noteq> []
           \<and> last lst = last (c # s)
           \<and> (\<forall>t. lines_from f ((c # s) @ t) = ((c # l) # init') @ (lst @ hd (scan t)) # tl (scan t))"
          using char False by (simp add: lines_from_char)
        then show ?thesis by blast
      qed
    qed
  qed
qed

lemma entries_tail:
  assumes "s \<noteq> []" "\<not> is_space (last s)" "last s \<noteq> 44"
    and "\<forall>c \<in> set ws. is_space c" and "t = ws \<or> t = 44 # ws"
  shows "clean_lines (splitlines (s @ t)) [] = clean_lines (splitlines s) []"
proof -
  from assms(2) have "\<not> is_linebreak (last s)" using is_linebreak_space by blast
  from lines_from_append [OF assms(1) this, of False]
  obtain init lst where L: "lines_from False s = init @ [lst]" "lst \<noteq> []" "last lst = last s"
    "lines_from False (s @ t) = init @ (lst @ hd (scan t)) # tl (scan t)"
    by blast
  from scan_tail [OF assms(4,5)]
  obtain ws1 rest where S: "scan t = (if t = ws then ws1 else 44 # ws1) # rest"
    "\<forall>c \<in> set ws1. is_space c" "\<forall>l \<in> set rest. \<forall>c \<in> set l. is_space c"
    by blast
  have h: "hd (scan t) = ws1 \<or> hd (scan t) = 44 # ws1" by (simp add: S(1))
  have "line_entry (lst @ hd (scan t)) = line_entry lst"
    using L(2,3) assms(2,3) S(2) h by (intro line_entry_tail) auto
  moreover have "concat (map line_entry rest) = []"
    using S(3) by (simp add: line_entry_spaces)
  ultimately show ?thesis
    by (simp add: splitlines_def clean_lines_entries L(1,4) S(1))
qed

lemma line_entry_finish: "line_entry l = finish (takeWhile (\<lambda>c. c \<noteq> 35) l)"
  by (simp add: line_entry_def finish_def clean_line_def before_hash)

lemma finish_Nil [simp]: "finish [] = []"
  by (simp add: finish_def strip_def lstrip_def rstrip_def)

lemma line_entry_Nil [simp]: "line_entry [] = []"
  by (simp add: line_entry_finish)

lemma entries_view: "concat (map line_entry ls) = finish (fst (view False ls)) @ snd (view False ls)"
  by (cases ls) (simp_all add: view_def line_entry_finish)

lemma view_True: "view True ls = ([], finish (fst (view False ls)) @ snd (view False ls))"
  using entries_view [of ls] by (simp add: view_def)

lemma view_break: "view f ([] # ls) = ([], finish (fst (view False ls)) @ snd (view False ls))"
  using entries_view [of ls] by (simp add: view_def)

lemma view_cons_first:
  "view False (cons_first c ls)
   = ((if c = 35 then [] else c # fst (view False ls)), snd (view False ls))"
  by (cases ls) (simp_all add: view_def)

lemma view_eq_False:
  "view False xs = view False ys \<Longrightarrow> view f xs = view f ys"
  by (cases f) (simp_all add: view_True)

lemma without_comments_view:
  "view f (lines_from f (without_comments False s)) = view f (lines_from f s)
   \<and> view f (lines_from f (without_comments True s))
     = ([], snd (view False (lines_from False s)))"
proof (induction s arbitrary: f)
  case Nil
  show ?case by (simp add: view_def)
next
  case (Cons c s)
  have a: "view g (lines_from g (without_comments False s)) = view g (lines_from g s)" for g
    using Cons.IH by simp
  have b: "view g (lines_from g (without_comments True s))
      = ([], snd (view False (lines_from False s)))" for g
    using Cons.IH by simp
  have ent: "finish (fst (view False (lines_from h (without_comments False s))))
        @ snd (view False (lines_from h (without_comments False s)))
      = finish (fst (view False (lines_from h s))) @ snd (view False (lines_from h s))" for h
  proof (cases h)
    case True
    with a [of True] show ?thesis by (simp add: view_True)
  next
    case False
    with a [of False] show ?thesis by simp
  qed
  have brk: "view g ([] # lines_from h (without_comments False s)) = view g' ([] # lines_from h s)"
    for g g' h
    by (simp add: view_break ent)
  consider (skip) "c = 10" "f" | (break) "\<not> (c = 10 \<and> f)" "is_linebreak c"
    | (hash) "\<not> is_linebreak c" "c = 35" | (char) "\<not> is_linebreak c" "c \<noteq> 35"
    by blast
  then show ?case
  proof cases
    case skip
    then have lb: "is_linebreak c" by (simp add: is_linebreak_def)
    have 1: "view f (lines_from f (without_comments False (c # s))) = view f (lines_from f (c # s))"
      using skip lb a [of False] by (simp add: lines_from_skip view_True)
    have "view True (lines_from False (without_comments False s))
        = ([], snd (view False ([] # lines_from False s)))"
      using a [of False] by (simp add: view_True view_break)
    then have 2: "view f (lines_from f (without_comments True (c # s)))
        = ([], snd (view False (lines_from False (c # s))))"
      using skip lb by (simp add: lines_from_skip lines_from_break)
    from 1 2 show ?thesis by simp
  next
    case break
    have 1: "view f (lines_from f (without_comments False (c # s))) = view f (lines_from f (c # s))"
      using break by (simp add: lines_from_break brk)
    have "view f ([] # lines_from (c = 13) (without_comments False s))
        = ([], snd (view False ([] # lines_from (c = 13) s)))"
      using brk [of f "c = 13" False] by (simp add: view_break)
    then have 2: "view f (lines_from f (without_comments True (c # s)))
        = ([], snd (view False (lines_from False (c # s))))"
      using break by (simp add: lines_from_break)
    from 1 2 show ?thesis by simp
  next
    case hash
    have "view f (cons_first 35 (lines_from False s)) = ([], snd (view False (lines_from False s)))"
      by (cases f) (simp_all add: view_True view_cons_first)
    then show ?thesis
      using hash b [of f] by (simp add: lines_from_char view_cons_first)
  next
    case char
    have "view False (cons_first c (lines_from False (without_comments False s)))
        = view False (cons_first c (lines_from False s))"
      using a [of False] by (simp add: view_cons_first)
    then have "view f (cons_first c (lines_from False (without_comments False s)))
        = view f (cons_first c (lines_from False s))"
      by (rule view_eq_False)
    then have 1: "view f (lines_from f (without_comments False (c # s)))
        = view f (lines_from f (c # s))"
      using char by (simp add: lines_from_char)
    have 2: "view f (lines_from f (without_comments True (c # s)))
        = ([], snd (view False (lines_from False (c # s))))"
      using char b [of f] by (simp add: lines_from_char view_cons_first)
    from 1 2 show ?thesis by simp
  qed
qed

lemma entries_without_comments:
  "clean_lines (splitlines (without_comments False block)) []
   = clean_lines (splitlines block) []"
  using without_comments_view [of False block]
  by (simp add: splitlines_def clean_lines_entries entries_view)

lemma rstrip_decomp:
  "block = rstrip block @ drop (length (rstrip block)) block
   \<and> (\<forall>c \<in> set (drop (length (rstrip block)) block). is_space c)"
proof -
  have "rev (dropWhile is_space (rev block)) @ rev (takeWhile is_space (rev block))
      = rev (takeWhile is_space (rev block) @ dropWhile is_space (rev block))"
    by (rule rev_append [symmetric])
  also have "\<dots> = block"
    by (simp only: takeWhile_dropWhile_id rev_rev_ident)
  finally have d: "block = rstrip block @ rev (takeWhile is_space (rev block))"
    by (simp add: rstrip_def)
  then have "drop (length (rstrip block)) block = rev (takeWhile is_space (rev block))"
    by (metis append_eq_conv_conj)
  moreover have "\<forall>c \<in> set (rev (takeWhile is_space (rev block))). is_space c"
    by (metis set_rev set_takeWhileD)
  ultimately show ?thesis using d by simp
qed

lemma entries_trailing_comma:
  assumes "has_trailing_comma block"
  shows "clean_lines (splitlines (without_trailing_comma block)) []
       = clean_lines (splitlines block) []"
proof -
  let ?ws = "drop (length (rstrip block)) block"
  from assms obtain d rest where r: "rev (rstrip block) = 44 # d # rest" "d \<noteq> 44" "\<not> is_space d"
    by (auto simp: has_trailing_comma_def split: list.splits)
  let ?s = "rev rest @ [d]"
  from r(1) have rs: "rstrip block = ?s @ [44]"
    by (metis append.assoc append_Cons append_Nil rev.simps(2) rev_rev_ident)
  from rstrip_decomp [of block] have ws: "\<forall>c \<in> set ?ws. is_space c"
    and b: "block = ?s @ 44 # ?ws"
    by (simp_all add: rs)
  have wo: "without_trailing_comma block = ?s @ ?ws"
    by (simp add: without_trailing_comma_def rs butlast_append)
  have "clean_lines (splitlines (?s @ 44 # ?ws)) [] = clean_lines (splitlines ?s) []"
    using r(2,3) ws by (intro entries_tail [where ws = ?ws]) simp_all
  moreover have "clean_lines (splitlines (?s @ ?ws)) [] = clean_lines (splitlines ?s) []"
    using r(2,3) ws by (intro entries_tail [where ws = ?ws]) simp_all
  ultimately show ?thesis using b wo by simp
qed

lemma search_block_found:
  assumes "93 \<notin> set block"
  shows "search_block (str ''remappings = ['' @ block @ 93 # rest) = Some block"
proof -
  have t: "takeWhile (\<lambda>x. x \<noteq> 93) (block @ 93 # rest) = block"
    using assms by (auto simp: takeWhile_tail)
  have "match_here (str ''remappings = ['' @ block @ 93 # rest) = Some block"
    by (simp add: match_here_def str_def is_space_def t)
  then show ?thesis by (simp add: str_def)
qed

text \<open>
  Claim C4. For every block text and every evaluator, the parser extracts from the block
  what it extracts from the block with its comments deleted; from a block with a trailing
  comma, what it extracts from the block with that comma deleted; and so also what it
  extracts from the block with both deleted. \<open>parse_block\<close> is the parser after the search:
  for a configuration that begins with \<open>remappings = [\<close>, the block and a \<open>]\<close>, the parser
  returns what \<open>parse_block\<close> returns for the block.
\<close>

theorem parse_block_comments_trailing_comma:
  "parse_block literal_eval (without_comments False block) = parse_block literal_eval block
   \<and> (has_trailing_comma block \<longrightarrow>
        parse_block literal_eval (without_trailing_comma block) = parse_block literal_eval block)
   \<and> (has_trailing_comma (without_comments False block) \<longrightarrow>
        parse_block literal_eval (without_trailing_comma (without_comments False block))
          = parse_block literal_eval block)
   \<and> (93 \<notin> set block \<longrightarrow>
        parse_remappings literal_eval
          [FOUNDRY_TOML \<mapsto> str ''remappings = ['' @ block @ 93 # rest]
          = parse_block literal_eval block)"
  by (simp add: parse_block_def entries_without_comments entries_trailing_comma
      parse_remappings_def read_text_def search_block_found)

theorem parse_block_comments_trailing_comma_witness:
  "has_trailing_comma (str ''\<newline>  \"@a/=lib/a/\", # one\<newline>  # two\<newline>  \"@b/=lib/b/\",\<newline>'')
   \<and> has_trailing_comma
       (without_comments False (str ''\<newline>  \"@a/=lib/a/\", # one\<newline>  # two\<newline>  \"@b/=lib/b/\",\<newline>''))
   \<and> without_trailing_comma
       (without_comments False (str ''\<newline>  \"@a/=lib/a/\", # one\<newline>  # two\<newline>  \"@b/=lib/b/\",\<newline>''))
       = str ''\<newline>  \"@a/=lib/a/\", \<newline>  \<newline>  \"@b/=lib/b/\"\<newline>''
   \<and> parse_block literal_eval_plain (str ''\<newline>  \"@a/=lib/a/\", \<newline>  \<newline>  \"@b/=lib/b/\"\<newline>'')
       = parse_block literal_eval_plain
           (str ''\<newline>  \"@a/=lib/a/\", # one\<newline>  # two\<newline>  \"@b/=lib/b/\",\<newline>'')
   \<and> parse_block literal_eval_plain
         (str ''\<newline>  \"@a/=lib/a/\", # one\<newline>  # two\<newline>  \"@b/=lib/b/\",\<newline>'')
       = Inr [(str ''@a/'', str ''lib/a/''), (str ''@b/'', str ''lib/b/'')]
   \<and> parse_block literal_eval_plain
         (without_trailing_comma
           (str ''\<newline>  \"@a/=lib/a/\", # one\<newline>  # two\<newline>  \"@b/=lib/b/\",\<newline>''))
       = Inr [(str ''@a/'', str ''lib/a/''), (str ''@b/'', str ''lib/b/'')]
   \<and> parse_remappings literal_eval_plain
         [FOUNDRY_TOML \<mapsto> str ''remappings = [''
            @ str ''\<newline>  \"@a/=lib/a/\", # one\<newline>  # two\<newline>  \"@b/=lib/b/\",\<newline>''
            @ 93 # str ''\<newline>libs = []'']
       = Inr [(str ''@a/'', str ''lib/a/''), (str ''@b/'', str ''lib/b/'')]"
proof -
  let ?b = "str ''\<newline>  \"@a/=lib/a/\", # one\<newline>  # two\<newline>  \"@b/=lib/b/\",\<newline>''"
  have 1: "has_trailing_comma ?b"
    by code_simp
  have 2: "has_trailing_comma (without_comments False ?b)"
    by code_simp
  have 3: "without_trailing_comma (without_comments False ?b)
      = str ''\<newline>  \"@a/=lib/a/\", \<newline>  \<newline>  \"@b/=lib/b/\"\<newline>''"
    by code_simp
  have 4: "parse_block literal_eval_plain ?b
      = Inr [(str ''@a/'', str ''lib/a/''), (str ''@b/'', str ''lib/b/'')]"
    by code_simp
  have 5: "93 \<notin> set ?b"
    by code_simp
  note inst = parse_block_comments_trailing_comma
    [of literal_eval_plain ?b "str ''\<newline>libs = []''"]
  from inst 2
  have a: "parse_block literal_eval_plain (without_trailing_comma (without_comments False ?b))
      = parse_block literal_eval_plain ?b"
    by blast
  from inst 1
  have b: "parse_block literal_eval_plain (without_trailing_comma ?b)
      = parse_block literal_eval_plain ?b"
    by blast
  from inst 5
  have c: "parse_remappings literal_eval_plain
      [FOUNDRY_TOML \<mapsto> str ''remappings = ['' @ ?b @ 93 # str ''\<newline>libs = []'']
      = parse_block literal_eval_plain ?b"
    by blast
  from 1 2 3 4 a b c show ?thesis by simp
qed

section \<open>The sanitized settings are a copy\<close>











end
